theory Spec2Isabelle
  imports Main "HOL-Library.Char_ord" "HOL-Library.List_Lexorder" "HOL-Library.Multiset"
begin

section \<open>Data model\<close>

text \<open>
  Modelled from the spec: the Go struct declarations \<^verbatim>\<open>Account\<close>, \<^verbatim>\<open>User\<close> and
  \<^verbatim>\<open>Event\<close> of package \<^verbatim>\<open>relational\<close> are not among the source files. The rows
  have the fields of section 3 of the specification, under the names by which
  \<^verbatim>\<open>accounts.go\<close> reads and writes them. A nullable \<^verbatim>\<open>*string\<close> is an \<open>option\<close>.
  The associations \<^verbatim>\<open>Account.Events\<close> and \<^verbatim>\<open>Event.User\<close> are not columns: they are
  filled by \<^verbatim>\<open>Preload\<close> and are modelled where \<^verbatim>\<open>GetAccount\<close> loads them.
\<close>

record Account =
  AccountID :: string
  Name :: string
  PublicKey :: string
  EncryptedSecretKey :: string
  UserSalt :: string

record User =
  HashedUserID :: string
  EncryptedUserSecret :: string

record Event =
  EventID :: string
  EventAccountID :: string
  EventHashedUserID :: "string option"
  Payload :: string

text \<open>
  The storage behind \<^verbatim>\<open>r.db\<close>: the rows of each table, in the order in which they
  were inserted. \<open>keyless_account_rows\<close> are the accounts that are stored without a
  key: GORM leaves a blank primary key out of the \<^verbatim>\<open>INSERT\<close>, and a storage that takes
  such a row holds it with no account id (\<^verbatim>\<open>NULL\<close>), so that no lookup by id finds it.
\<close>

record database =
  account_rows :: "Account list"
  user_rows :: "User list"
  event_rows :: "Event list"
  keyless_account_rows :: "Account list"

subsection \<open>Errors\<close>

text \<open>
  What a GORM call reports in its \<^verbatim>\<open>Error\<close> field: the sentinel
  \<^verbatim>\<open>gorm.ErrRecordNotFound\<close>, or any other failure of the storage with its message.
\<close>

datatype dberror = ErrRecordNotFound | DBFailure string

fun dberror_msg :: "dberror \<Rightarrow> string" where
  "dberror_msg ErrRecordNotFound = ''record not found''"
| "dberror_msg (DBFailure m) = m"

text \<open>
  What the store returns to its caller: the typed \<^verbatim>\<open>persistence.ErrUnknownAccount\<close>,
  or a generic error (\<^verbatim>\<open>fmt.Errorf\<close>, or the storage's error passed on as it is).
\<close>

datatype error = ErrUnknownAccount string | GenericError string

subsection \<open>Storage calls\<close>

text \<open>
  Each GORM call of the source is a function on the table it touches. Its first argument
  is the failure the storage reports for this call, if any (a lost connection, a
  timeout): \<open>None\<close> when the storage answers. The comment in
  \<^verbatim>\<open>AssociateUserSecret\<close> names \<^verbatim>\<open>hashed_user_id\<close> as the primary key of the users;
  the one of \<^verbatim>\<open>NewEventID\<close> names the event id as the primary key of the events. An
  insert of a primary key that is already there fails.
\<close>

definition db_find_account :: "string option \<Rightarrow> Account list \<Rightarrow> string \<Rightarrow> dberror + Account" where
  \<comment> \<open>\<^verbatim>\<open>db.Find(&account, "account_id = ?", accountID)\<close>\<close>
  "db_find_account fault rows accountID =
     (case fault of
        Some m \<Rightarrow> Inl (DBFailure m)
      | None \<Rightarrow>
          (case find (\<lambda>a. AccountID a = accountID) rows of
             None \<Rightarrow> Inl ErrRecordNotFound
           | Some a \<Rightarrow> Inr a))"

definition db_first_user :: "string option \<Rightarrow> User list \<Rightarrow> string \<Rightarrow> dberror + User" where
  \<comment> \<open>\<^verbatim>\<open>db.First(&user, "hashed_user_id = ?", hashedUserID)\<close>\<close>
  "db_first_user fault rows hashedUserID =
     (case fault of
        Some m \<Rightarrow> Inl (DBFailure m)
      | None \<Rightarrow>
          (case find (\<lambda>u. HashedUserID u = hashedUserID) rows of
             None \<Rightarrow> Inl ErrRecordNotFound
           | Some u \<Rightarrow> Inr u))"

definition db_create_user :: "string option \<Rightarrow> User list \<Rightarrow> User \<Rightarrow> dberror + User list" where
  \<comment> \<open>\<^verbatim>\<open>db.Create(&user)\<close>\<close>
  "db_create_user fault rows u =
     (case fault of
        Some m \<Rightarrow> Inl (DBFailure m)
      | None \<Rightarrow>
          (if HashedUserID u \<in> set (map HashedUserID rows)
           then Inl (DBFailure ''duplicate key value violates unique constraint'')
           else Inr (rows @ [u])))"

definition db_delete_users :: "string option \<Rightarrow> User list \<Rightarrow> string \<Rightarrow> dberror + User list" where
  \<comment> \<open>\<^verbatim>\<open>db.Delete(&User{}, "hashed_user_id = ?", hashedUserID)\<close>\<close>
  "db_delete_users fault rows hashedUserID =
     (case fault of
        Some m \<Rightarrow> Inl (DBFailure m)
      | None \<Rightarrow> Inr (filter (\<lambda>u. HashedUserID u \<noteq> hashedUserID) rows))"

definition db_find_events :: "string option \<Rightarrow> Event list \<Rightarrow> string \<Rightarrow> dberror + Event list" where
  \<comment> \<open>\<^verbatim>\<open>db.Find(&affected, "hashed_user_id = ?", hashedUserID)\<close>: a slice is filled, no row is no error\<close>
  "db_find_events fault rows hashedUserID =
     (case fault of
        Some m \<Rightarrow> Inl (DBFailure m)
      | None \<Rightarrow> Inr (filter (\<lambda>e. EventHashedUserID e = Some hashedUserID) rows))"

definition db_delete_event :: "string option \<Rightarrow> Event list \<Rightarrow> string \<Rightarrow> dberror + Event list" where
  \<comment> \<open>\<^verbatim>\<open>db.Delete(&Event{}, "event_id = ?", eventID)\<close>\<close>
  "db_delete_event fault rows eventID =
     (case fault of
        Some m \<Rightarrow> Inl (DBFailure m)
      | None \<Rightarrow> Inr (filter (\<lambda>e. EventID e \<noteq> eventID) rows))"

definition db_create_event :: "string option \<Rightarrow> Event list \<Rightarrow> Event \<Rightarrow> dberror + Event list" where
  \<comment> \<open>\<^verbatim>\<open>db.Create(&ev)\<close>\<close>
  "db_create_event fault rows ev =
     (case fault of
        Some m \<Rightarrow> Inl (DBFailure m)
      | None \<Rightarrow>
          (if EventID ev \<in> set (map EventID rows)
           then Inl (DBFailure ''duplicate key value violates unique constraint'')
           else Inr (rows @ [ev])))"

section \<open>AssociateUserSecret\<close>

text \<open>
  Modelled from the spec: the method \<^verbatim>\<open>Account.HashUserID\<close> is not among the source
  files. Section 4.2 gives its contract, \<^verbatim>\<open>Hash(plaintextUserID, accountSalt)\<close>, a pure
  function of the identifier and the account's salt. The hasher \<open>H\<close> is a parameter:
  any function of the two.
\<close>

definition HashUserID :: "(string \<Rightarrow> string \<Rightarrow> string) \<Rightarrow> Account \<Rightarrow> string \<Rightarrow> string" where
  "HashUserID H account userID = H userID (UserSalt account)"

text \<open>
  What the collaborators answer during one call of \<^verbatim>\<open>AssociateUserSecret\<close>: for each
  storage call the failure it reports (if any), the result of \<^verbatim>\<open>uuid.NewV4()\<close> (as
  the string of the identifier), and for the \<open>i\<close>-th turn of the loop over the affected
  events the result of \<^verbatim>\<open>newEventID()\<close> (the helper of package \<^verbatim>\<open>relational\<close>, which
  is not among the source files: an identifier or an error) and the failures of that
  turn's two writes. \<^verbatim>\<open>txn.Rollback()\<close> returns an error that the source never reads; a
  transaction that is not committed leaves the stored tables as they were.
\<close>

record env =
  find_account_fault :: "string option"
  first_user_fault :: "string option"
  uuid_NewV4 :: "string + string"
  create_parked_fault :: "string option"
  delete_user_fault :: "string option"
  find_affected_fault :: "string option"
  newEventID :: "nat \<Rightarrow> string + string"
  delete_event_fault :: "nat \<Rightarrow> string option"
  create_event_fault :: "nat \<Rightarrow> string option"
  commit_fault :: "string option"
  create_user_fault :: "string option"

text \<open>
  Where the transaction \<^verbatim>\<open>txn\<close> stands when the function returns: never begun, left
  open (neither \<^verbatim>\<open>Rollback\<close> nor \<^verbatim>\<open>Commit\<close> was called on it), rolled back,
  committed, or its \<^verbatim>\<open>Commit\<close> failed.
\<close>

datatype txn_state = NoTxn | TxnOpen | TxnRolledBack | TxnCommitted | TxnCommitFailed

definition migrating :: "string \<Rightarrow> error" where
  "migrating m = GenericError (''relational: error migrating existing events: '' @ m)"

text \<open>
  The loop over \<^verbatim>\<open>affected\<close> (lines 110 to 126). \<open>tev\<close> is the events table as the
  transaction sees it; \<open>i\<close> counts the turns. Every \<open>Inl\<close> is a return after
  \<^verbatim>\<open>txn.Rollback()\<close>.
\<close>

fun migrate_events :: "env \<Rightarrow> string \<Rightarrow> nat \<Rightarrow> Event list \<Rightarrow> Event list \<Rightarrow> error + Event list" where
  "migrate_events E parkedHash i [] tev = Inr tev"
| "migrate_events E parkedHash i (ev # rest) tev =
     (case newEventID E i of
        Inl m \<Rightarrow> Inl (migrating m)
      | Inr newID \<Rightarrow>
          (case db_delete_event (delete_event_fault E i) tev (EventID ev) of
             Inl err \<Rightarrow> Inl (migrating (dberror_msg err))
           | Inr tev1 \<Rightarrow>
               (case db_create_event (create_event_fault E i) tev1
                       (ev\<lparr>EventID := newID, EventHashedUserID := Some parkedHash\<rparr>) of
                  Inl err \<Rightarrow> Inl (migrating (dberror_msg err))
                | Inr tev2 \<Rightarrow> migrate_events E parkedHash (Suc i) rest tev2)))"

text \<open>
  \<^verbatim>\<open>r.db.Find(&affected, "hashed_user_id = ?", hashedUserID)\<close> (line 108): the call's
  error is not looked at, so when the storage fails here \<^verbatim>\<open>affected\<close> stays empty.
\<close>

definition affected_events :: "env \<Rightarrow> database \<Rightarrow> string \<Rightarrow> Event list" where
  "affected_events E db hashedUserID =
     (case db_find_events (find_affected_fault E) (event_rows db) hashedUserID of
        Inl err \<Rightarrow> []
      | Inr evs \<Rightarrow> evs)"

text \<open>
  The branch of an existing user (lines 89 to 126), on the transaction's view of the
  tables, which starts as the stored tables \<open>db\<close>. The result is the transaction's view
  at the end of the branch, or the error returned after \<^verbatim>\<open>txn.Rollback()\<close>.
\<close>

definition migrate_existing ::
  "(string \<Rightarrow> string \<Rightarrow> string) \<Rightarrow> env \<Rightarrow> database \<Rightarrow> Account \<Rightarrow> User \<Rightarrow> string \<Rightarrow> error + database" where
  "migrate_existing H E db account user hashedUserID =
     (case uuid_NewV4 E of
        Inl m \<Rightarrow> Inl (migrating m)
      | Inr parkedID \<Rightarrow>
          (let parkedHash = HashUserID H account parkedID in
           case db_create_user (create_parked_fault E) (user_rows db)
                  (user\<lparr>HashedUserID := parkedHash\<rparr>) of
             Inl err \<Rightarrow> Inl (migrating (dberror_msg err))
           | Inr us1 \<Rightarrow>
               (case db_delete_users (delete_user_fault E) us1 hashedUserID of
                  Inl err \<Rightarrow> Inl (migrating (dberror_msg err))
                | Inr us2 \<Rightarrow>
                    (case migrate_events E parkedHash 0 (affected_events E db hashedUserID)
                            (event_rows db) of
                       Inl e \<Rightarrow> Inl e
                     | Inr evs \<Rightarrow> Inr (db\<lparr>user_rows := us2, event_rows := evs\<rparr>)))))"

text \<open>
  Lines 129 to 136: \<^verbatim>\<open>txn.Commit()\<close> makes the transaction's view \<open>txn\<close> the stored
  tables, then the new user is created outside the transaction and the storage's error
  is returned as it is.
\<close>

definition commit_and_create ::
  "env \<Rightarrow> database \<Rightarrow> database \<Rightarrow> string \<Rightarrow> string \<Rightarrow> error option \<times> database \<times> txn_state" where
  "commit_and_create E db txn hashedUserID encryptedUserSecret =
     (case commit_fault E of
        Some m \<Rightarrow> (Some (migrating m), db, TxnCommitFailed)
      | None \<Rightarrow>
          (case db_create_user (create_user_fault E) (user_rows txn)
                  \<lparr>HashedUserID = hashedUserID, EncryptedUserSecret = encryptedUserSecret\<rparr> of
             Inl err \<Rightarrow> (Some (GenericError (dberror_msg err)), txn, TxnCommitted)
           | Inr us \<Rightarrow> (None, txn\<lparr>user_rows := us\<rparr>, TxnCommitted)))"

text \<open>
  The function: the error it returns (\<open>None\<close> for \<^verbatim>\<open>nil\<close>), the stored tables after
  the call, and where the transaction stands.
\<close>

definition AssociateUserSecret ::
  "(string \<Rightarrow> string \<Rightarrow> string) \<Rightarrow> env \<Rightarrow> database \<Rightarrow> string \<Rightarrow> string \<Rightarrow> string
     \<Rightarrow> error option \<times> database \<times> txn_state" where
  "AssociateUserSecret H E db accountID userID encryptedUserSecret =
     (case db_find_account (find_account_fault E) (account_rows db) accountID of
        Inl err \<Rightarrow>
          (Some (GenericError (''relational: error looking up account with id '' @ accountID
                   @ '': '' @ dberror_msg err)), db, NoTxn)
      | Inr account \<Rightarrow>
          (let hashedUserID = HashUserID H account userID in
           case db_first_user (first_user_fault E) (user_rows db) hashedUserID of
             Inl err \<Rightarrow>
               (if err \<noteq> ErrRecordNotFound
                then (Some (GenericError (''relational: error looking up user: '' @ dberror_msg err)),
                      db, TxnOpen)
                else commit_and_create E db db hashedUserID encryptedUserSecret)
           | Inr user \<Rightarrow>
               (case migrate_existing H E db account user hashedUserID of
                  Inl e \<Rightarrow> (Some e, db, TxnRolledBack)
                | Inr txn \<Rightarrow> commit_and_create E db txn hashedUserID encryptedUserSecret)))"

section \<open>GetAccount\<close>

text \<open>
  Modelled from the spec: the result types \<^verbatim>\<open>AccountResult\<close> and \<^verbatim>\<open>EventResult\<close> of
  package \<^verbatim>\<open>persistence\<close> are not among the source files. Their fields are the ones
  \<^verbatim>\<open>GetAccount\<close> sets. A Go map is an association list with one entry for each key
  (\<open>map_of\<close> reads it, \<open>map_set\<close> writes it); a field left at its zero value is
  \<open>None\<close> for a pointer or an interface and the empty string for a string.
\<close>

record EventResult =
  ResUserID :: "string option"
  ResEventID :: string
  ResPayload :: string
  ResAccountID :: string

record 'k AccountResult =
  ResultAccountID :: string
  ResultPublicKey :: "'k option"
  ResultEncryptedSecretKey :: string
  ResultEvents :: "(string \<times> EventResult list) list option"
  ResultUserSecrets :: "(string \<times> string) list option"

fun map_set :: "'a \<Rightarrow> 'b \<Rightarrow> ('a \<times> 'b) list \<Rightarrow> ('a \<times> 'b) list" where
  "map_set k v [] = [(k, v)]"
| "map_set k v ((k', v') # m) = (if k' = k then (k, v) # m else (k', v') # map_set k v m)"

text \<open>
  \<^verbatim>\<open>Preload("Events", "event_id > ?", eventsSince)\<close> and \<^verbatim>\<open>Preload("Events")\<close>:
  the events of the account, with an identifier above the cursor when one is given. The
  storage compares the two texts; here byte by byte, the first difference deciding (the
  order of \<open>string\<close>). Neither query has an \<^verbatim>\<open>ORDER BY\<close>: the storage returns the
  selected rows in an order of its choice (the order of the table, or of an index when
  one serves the cursor). \<open>row_order\<close> is that choice for this query, a rearrangement of
  the selected rows.
\<close>

definition preload_events ::
  "(Event list \<Rightarrow> Event list) \<Rightarrow> Event list \<Rightarrow> string \<Rightarrow> bool \<Rightarrow> string \<Rightarrow> Event list" where
  "preload_events row_order rows accountID events eventsSince =
     (if events then
        (if eventsSince \<noteq> ''''
         then row_order (filter (\<lambda>e. EventAccountID e = accountID \<and> eventsSince < EventID e) rows)
         else row_order (filter (\<lambda>e. EventAccountID e = accountID) rows))
      else [])"

text \<open>\<^verbatim>\<open>Preload("Events.User")\<close>: the user of an event, the zero value when there is none.\<close>

definition preload_user :: "User list \<Rightarrow> Event \<Rightarrow> User" where
  "preload_user rows evt =
     (case EventHashedUserID evt of
        None \<Rightarrow> \<lparr>HashedUserID = '''', EncryptedUserSecret = ''''\<rparr>
      | Some h \<Rightarrow>
          (case find (\<lambda>u. HashedUserID u = h) rows of
             None \<Rightarrow> \<lparr>HashedUserID = '''', EncryptedUserSecret = ''''\<rparr>
           | Some u \<Rightarrow> u))"

definition event_result :: "Event \<Rightarrow> EventResult" where
  "event_result evt =
     \<lparr>ResUserID = EventHashedUserID evt, ResEventID = EventID evt,
      ResPayload = Payload evt, ResAccountID = EventAccountID evt\<rparr>"

text \<open>The loop over \<^verbatim>\<open>account.Events\<close> (lines 50 to 60), on the two maps it fills.\<close>

fun collect_events ::
  "User list \<Rightarrow> Event list \<Rightarrow> (string \<times> EventResult list) list \<times> (string \<times> string) list
     \<Rightarrow> (string \<times> EventResult list) list \<times> (string \<times> string) list" where
  "collect_events us [] maps = maps"
| "collect_events us (evt # rest) (eventResults, userSecrets) =
     collect_events us rest
       (map_set (EventAccountID evt)
          ((case map_of eventResults (EventAccountID evt) of None \<Rightarrow> [] | Some rs \<Rightarrow> rs)
             @ [event_result evt])
          eventResults,
        (case EventHashedUserID evt of
           None \<Rightarrow> userSecrets
         | Some h \<Rightarrow> map_set h (EncryptedUserSecret (preload_user us evt)) userSecrets))"

text \<open>
  \<^verbatim>\<open>Account.WrapPublicKey\<close> is not among the source files: it is the parameter
  \<open>WrapPublicKey\<close>, which gives a key or an error message. \<open>fault\<close> is the failure of
  the query (the lookup with its preloads), if any, and \<open>row_order\<close> the order in which
  the storage returns the preloaded events.
\<close>

definition GetAccount ::
  "(Account \<Rightarrow> string + 'k) \<Rightarrow> string option \<Rightarrow> (Event list \<Rightarrow> Event list) \<Rightarrow> database
     \<Rightarrow> string \<Rightarrow> bool \<Rightarrow> string \<Rightarrow> error + 'k AccountResult" where
  "GetAccount WrapPublicKey fault row_order db accountID events eventsSince =
     (case db_find_account fault (account_rows db) accountID of
        Inl err \<Rightarrow>
          (if err = ErrRecordNotFound
           then Inl (ErrUnknownAccount (''relational: account id '' @ [CHR 0x22] @ accountID
                       @ [CHR 0x22] @ '' unknown''))
           else Inl (GenericError (''relational: error looking up account with id '' @ accountID
                       @ '': '' @ dberror_msg err)))
      | Inr account \<Rightarrow>
          (case WrapPublicKey account of
             Inl m \<Rightarrow> Inl (GenericError (''relational: error wrapping account public key: '' @ m))
           | Inr key \<Rightarrow>
               (let result = \<lparr>ResultAccountID = AccountID account, ResultPublicKey = None,
                              ResultEncryptedSecretKey = '''', ResultEvents = None,
                              ResultUserSecrets = None\<rparr>;
                    result = (if events
                              then result\<lparr>ResultEncryptedSecretKey := EncryptedSecretKey account\<rparr>
                              else result\<lparr>ResultPublicKey := Some key\<rparr>);
                    (eventResults, userSecrets) =
                       collect_events (user_rows db)
                         (preload_events row_order (event_rows db) (AccountID account) events
                            eventsSince)
                         ([], []);
                    result = (if eventResults \<noteq> [] then result\<lparr>ResultEvents := Some eventResults\<rparr>
                              else result);
                    result = (if userSecrets \<noteq> [] then result\<lparr>ResultUserSecrets := Some userSecrets\<rparr>
                              else result)
                in Inr result)))"

section \<open>CreateAccount\<close>

text \<open>
  What the collaborators answer during one call: \<^verbatim>\<open>keys.GenerateRandomString\<close> (the
  salt or an error), \<^verbatim>\<open>keys.GenerateRSAKeypair\<close> (the public and the private key, or
  an error), \<^verbatim>\<open>r.encryption.Encrypt\<close>, and the failure of the write, if any.
\<close>

record keys_env =
  GenerateRandomString :: "string + string"
  GenerateRSAKeypair :: "string + string \<times> string"
  Encrypt :: "string \<Rightarrow> string + string"
  save_fault :: "string option"

text \<open>
  \<^verbatim>\<open>db.Save(&account)\<close>: with a primary key, GORM updates the row of this key and
  inserts the row when none was updated. With a blank primary key it inserts and leaves
  the key out of the statement: the row is stored without a key. (A storage that
  refuses a row without a key reports it as the failure of the write.)
\<close>

definition db_save_account :: "string option \<Rightarrow> database \<Rightarrow> Account \<Rightarrow> dberror + database" where
  "db_save_account fault db a =
     (case fault of
        Some m \<Rightarrow> Inl (DBFailure m)
      | None \<Rightarrow>
          (if AccountID a = ''''
           then Inr (db\<lparr>keyless_account_rows := keyless_account_rows db @ [a]\<rparr>)
           else if AccountID a \<in> set (map AccountID (account_rows db))
           then Inr (db\<lparr>account_rows :=
                          map (\<lambda>r. if AccountID r = AccountID a then a else r) (account_rows db)\<rparr>)
           else Inr (db\<lparr>account_rows := account_rows db @ [a]\<rparr>)))"

definition CreateAccount :: "keys_env \<Rightarrow> database \<Rightarrow> string \<Rightarrow> string \<Rightarrow> error option \<times> database" where
  "CreateAccount K db accountID name =
     (case GenerateRandomString K of
        Inl m \<Rightarrow> (Some (GenericError (''relational: error creating new user salt for account: '' @ m)), db)
      | Inr userSalt \<Rightarrow>
          (case GenerateRSAKeypair K of
             Inl m \<Rightarrow> (Some (GenericError (''relational: error creating new key pair for account: '' @ m)), db)
           | Inr (publicKey, privateKey) \<Rightarrow>
               (case Encrypt K privateKey of
                  Inl m \<Rightarrow> (Some (GenericError (''relational: error encrypting account private key: '' @ m)), db)
                | Inr encryptedPrivateKey \<Rightarrow>
                    (case db_save_account (save_fault K) db
                            \<lparr>AccountID = accountID, Name = name, PublicKey = publicKey,
                             EncryptedSecretKey = encryptedPrivateKey, UserSalt = userSalt\<rparr> of
                       Inl err \<Rightarrow> (Some (GenericError (dberror_msg err)), db)
                     | Inr db' \<Rightarrow> (None, db')))))"

section \<open>NewEventID\<close>

text \<open>
  The clock reading \<open>t\<close> of \<^verbatim>\<open>time.Now()\<close> is the number of nanoseconds since the
  epoch (\<^verbatim>\<open>t.UnixNano()\<close>). The libraries are not part of the repository:
  \<^item> \<^verbatim>\<open>ulid.Timestamp(t)\<close> is the reading in milliseconds;
  \<^item> \<open>rnd seed\<close> stands for the ten bytes a new \<^verbatim>\<open>rand.New(rand.NewSource(seed))\<close>
    gives first, as a number: any function, since the generator is a pure function of
    its seed;
  \<^item> \<^verbatim>\<open>ulid.Monotonic(r, 0)\<close> is built anew in every call, so it holds no entropy of an
    earlier call and reads its ten bytes from \<open>r\<close>;
  \<^item> \<^verbatim>\<open>ulid.New\<close> fails when the time does not fit 48 bits, and the identifier is the
    time followed by the entropy;
  \<^item> \<^verbatim>\<open>String()\<close> writes the 128 bits in 26 characters of Crockford's base 32.
\<close>

definition Timestamp :: "nat \<Rightarrow> nat" where
  "Timestamp t = t div 1000000"

definition ulid_New :: "nat \<Rightarrow> nat \<Rightarrow> string + nat \<times> nat" where
  "ulid_New ms entropy =
     (if ms > 281474976710655 then Inl ''ulid: time too big''
      else Inr (ms, entropy mod 2 ^ 80))"

text \<open>The alphabet of the encoding, and the \<open>k\<close> digits of \<open>n\<close> in base 32, the highest first.\<close>

definition crockford :: string where
  "crockford = ''0123456789ABCDEFGHJKMNPQRSTVWXYZ''"

definition base32 :: "nat \<Rightarrow> nat \<Rightarrow> string" where
  "base32 k n = map (\<lambda>i. crockford ! ((n div 32 ^ (k - 1 - i)) mod 32)) [0..<k]"

definition ulid_String :: "nat \<times> nat \<Rightarrow> string" where
  "ulid_String u = base32 26 (fst u * 2 ^ 80 + snd u)"

definition NewEventID :: "(nat \<Rightarrow> nat) \<Rightarrow> nat \<Rightarrow> string + string" where
  "NewEventID rnd t =
     (case ulid_New (Timestamp t) (rnd t) of
        Inl err \<Rightarrow> Inl err
      | Inr eventID \<Rightarrow> Inr (ulid_String eventID))"

text \<open>A sequence of calls, the \<open>k\<close>-th one reading the clock as \<open>ts ! k\<close>.\<close>

definition NewEventIDs :: "(nat \<Rightarrow> nat) \<Rightarrow> nat list \<Rightarrow> (string + string) list" where
  "NewEventIDs rnd ts = map (NewEventID rnd) ts"

section \<open>A sample store\<close>

text \<open>
  The scenario of the specification: the account \<open>acme\<close>, the user \<open>alice\<close> with the
  secret \<open>S1\<close>, one event of hers and one anonymous event. The sample hasher joins the
  salt and the identifier; \<open>calm\<close> is a call during which nothing fails.
\<close>

definition sample_hash :: "string \<Rightarrow> string \<Rightarrow> string" where
  "sample_hash userID salt = salt @ ''-'' @ userID"

definition acme :: Account where
  "acme = \<lparr>AccountID = ''acme'', Name = ''Acme'', PublicKey = ''PK'',
           EncryptedSecretKey = ''ESK'', UserSalt = ''salt''\<rparr>"

definition calm :: env where
  "calm = \<lparr>find_account_fault = None, first_user_fault = None, uuid_NewV4 = Inr ''uuid-1'',
     create_parked_fault = None, delete_user_fault = None, find_affected_fault = None,
     newEventID = (\<lambda>i. Inr (''N'' @ replicate i CHR ''x'')),
     delete_event_fault = (\<lambda>i. None), create_event_fault = (\<lambda>i. None),
     commit_fault = None, create_user_fault = None\<rparr>"

definition E1 :: Event where
  "E1 = \<lparr>EventID = ''E1'', EventAccountID = ''acme'',
          EventHashedUserID = Some ''salt-alice'', Payload = ''p1''\<rparr>"

definition E2 :: Event where
  "E2 = \<lparr>EventID = ''E2'', EventAccountID = ''acme'',
          EventHashedUserID = None, Payload = ''p2''\<rparr>"

definition store1 :: database where
  "store1 = \<lparr>account_rows = [acme],
      user_rows = [\<lparr>HashedUserID = ''salt-alice'', EncryptedUserSecret = ''S1''\<rparr>],
      event_rows = [E1, E2], keyless_account_rows = []\<rparr>"

definition sample_keys :: keys_env where
  "sample_keys = \<lparr>GenerateRandomString = Inr ''pepper'',
      GenerateRSAKeypair = Inr (''pub'', ''priv''),
      Encrypt = (\<lambda>s. Inr (''enc:'' @ s)), save_fault = None\<rparr>"

definition sample_wrap :: "Account \<Rightarrow> string + string" where
  "sample_wrap a = (if PublicKey a = '''' then Inl ''no public key'' else Inr (''jwk:'' @ PublicKey a))"

section \<open>Facts about the storage calls\<close>

lemmas sample_defs = sample_hash_def acme_def calm_def E1_def E2_def store1_def

lemmas db_defs = db_find_account_def db_first_user_def db_create_user_def db_delete_users_def
  db_find_events_def db_delete_event_def db_create_event_def

lemmas assoc_defs = AssociateUserSecret_def migrate_existing_def commit_and_create_def
  affected_events_def HashUserID_def migrating_def Let_def

lemma find_Some_D: "find P xs = Some x \<Longrightarrow> x \<in> set xs \<and> P x"
  by (induction xs) (auto split: if_splits)

lemma db_find_account_Inr:
  "db_find_account fault rows accountID = Inr a \<Longrightarrow> a \<in> set rows \<and> AccountID a = accountID"
  by (auto simp: db_find_account_def split: option.splits dest: find_Some_D)

lemma db_first_user_Inr:
  "db_first_user fault rows h = Inr u \<Longrightarrow> u \<in> set rows \<and> HashedUserID u = h"
  by (auto simp: db_first_user_def split: option.splits dest: find_Some_D)

text \<open>With the event id a primary key, two rows of the table with one id are one row.\<close>

lemma event_eq_by_id:
  assumes "distinct (map EventID tev)" and "e \<in> set tev" and "ev \<in> set tev"
  shows "(EventID e = EventID ev) = (e = ev)"
  using assms by (meson distinct_map inj_on_eq_iff)

lemma affected_events_subset: "set (affected_events E db h) \<subseteq> set (event_rows db)"
  by (auto simp: affected_events_def db_find_events_def split: option.splits)

lemma distinct_affected_events:
  "distinct (map EventID (event_rows db)) \<Longrightarrow> distinct (affected_events E db h)"
  by (auto simp: affected_events_def db_find_events_def distinct_map split: option.splits)

section \<open>The migration loop\<close>

text \<open>
  When the loop ends without an error, the transaction's events are the rows it did not
  visit, in their order, followed by the visited rows, each with the identifier that
  \<^verbatim>\<open>newEventID\<close> gave in its turn and with the parked hash. The primary key stays a key.
\<close>

lemma migrate_events_result:
  assumes "migrate_events E p i aff tev = Inr tev'"
    and "distinct (map EventID tev)" and "set aff \<subseteq> set tev" and "distinct aff"
  shows "\<exists>ids. length ids = length aff
            \<and> (\<forall>k<length aff. newEventID E (i + k) = Inr (ids ! k))
            \<and> tev' = filter (\<lambda>e. e \<notin> set aff) tev
                     @ map2 (\<lambda>ev newID. ev\<lparr>EventID := newID, EventHashedUserID := Some p\<rparr>) aff ids
            \<and> distinct (map EventID tev')"
  using assms
proof (induction aff arbitrary: i tev)
  case Nil
  then show ?case by simp
next
  case (Cons ev rest)
  let ?ev' = "\<lambda>newID. ev\<lparr>EventID := newID, EventHashedUserID := Some p\<rparr>"
  from Cons.prems(1) obtain newID tev1 tev2 where
    nid: "newEventID E i = Inr newID"
    and del: "db_delete_event (delete_event_fault E i) tev (EventID ev) = Inr tev1"
    and cre: "db_create_event (create_event_fault E i) tev1 (?ev' newID) = Inr tev2"
    and run: "migrate_events E p (Suc i) rest tev2 = Inr tev'"
    by (auto split: sum.splits)
  from del have tev1: "tev1 = filter (\<lambda>e. EventID e \<noteq> EventID ev) tev"
    by (auto simp: db_delete_event_def split: option.splits)
  from cre have fresh: "newID \<notin> set (map EventID tev1)" and tev2: "tev2 = tev1 @ [?ev' newID]"
    by (auto simp: db_create_event_def split: option.splits if_splits)
  have evin: "ev \<in> set tev"
    using Cons.prems(3) by simp
  have same: "\<And>e. e \<in> set tev \<Longrightarrow> (EventID e \<noteq> EventID ev) = (e \<noteq> ev)"
    using event_eq_by_id[OF Cons.prems(2) _ evin] by simp
  have tev1': "tev1 = filter (\<lambda>e. e \<noteq> ev) tev"
    unfolding tev1 by (rule filter_cong) (auto simp: same)
  have key1: "distinct (map EventID tev1)"
    unfolding tev1 using Cons.prems(2) by (simp add: distinct_map_filter)
  have key2: "distinct (map EventID tev2)"
    using key1 fresh by (simp add: tev2)
  have sub: "set rest \<subseteq> set tev2"
    using Cons.prems(3,4) by (auto simp: tev2 tev1')
  have dr: "distinct rest"
    using Cons.prems(4) by simp
  from Cons.IH[OF run key2 sub dr] obtain ids where
    len: "length ids = length rest"
    and ids: "\<forall>k<length rest. newEventID E (Suc i + k) = Inr (ids ! k)"
    and res: "tev' = filter (\<lambda>e. e \<notin> set rest) tev2
                @ map2 (\<lambda>ev newID. ev\<lparr>EventID := newID, EventHashedUserID := Some p\<rparr>) rest ids"
    and key: "distinct (map EventID tev')"
    by blast
  have notin: "?ev' newID \<notin> set rest"
  proof
    assume "?ev' newID \<in> set rest"
    then have "?ev' newID \<in> set tev1"
      using Cons.prems(3,4) by (auto simp: tev1')
    then have "EventID (?ev' newID) \<in> EventID ` set tev1"
      by (rule imageI)
    then show False
      using fresh by simp
  qed
  have kept: "filter (\<lambda>e. e \<notin> set rest) tev2
                = filter (\<lambda>e. e \<notin> set (ev # rest)) tev @ [?ev' newID]"
    using notin by (simp add: tev2 tev1' conj_commute)
  have "length (newID # ids) = length (ev # rest)"
    using len by simp
  moreover have "\<forall>k<length (ev # rest). newEventID E (i + k) = Inr ((newID # ids) ! k)"
    using nid ids by (auto simp: nth_Cons split: nat.splits)
  moreover have "tev' = filter (\<lambda>e. e \<notin> set (ev # rest)) tev
       @ map2 (\<lambda>ev newID. ev\<lparr>EventID := newID, EventHashedUserID := Some p\<rparr>) (ev # rest) (newID # ids)"
    using res kept by simp
  ultimately show ?case
    using key by blast
qed

lemma migrate_existing_events:
  assumes "migrate_existing H E db account user h = Inr txn"
    and "distinct (map EventID (event_rows db))"
    and "uuid_NewV4 E = Inr parkedID"
  shows "\<exists>ids. length ids = length (affected_events E db h)
            \<and> (\<forall>k<length (affected_events E db h). newEventID E k = Inr (ids ! k))
            \<and> event_rows txn = filter (\<lambda>e. e \<notin> set (affected_events E db h)) (event_rows db)
                 @ map2 (\<lambda>ev newID. ev\<lparr>EventID := newID,
                                        EventHashedUserID := Some (HashUserID H account parkedID)\<rparr>)
                     (affected_events E db h) ids"
proof -
  from assms(1,3) obtain evs where
    m: "migrate_events E (HashUserID H account parkedID) 0 (affected_events E db h) (event_rows db)
          = Inr evs"
    and t: "event_rows txn = evs"
    by (auto simp: migrate_existing_def Let_def split: sum.splits)
  from migrate_events_result[OF m assms(2) affected_events_subset distinct_affected_events[OF assms(2)]]
  show ?thesis
    unfolding t by auto
qed

section \<open>AssociateUserSecret: a user that is new\<close>

text \<open>
  Claim C8. When the lookup finds the account and finds no user of the hash
  \<open>HashUserID H account userID\<close> (the storage answers \<^verbatim>\<open>ErrRecordNotFound\<close>), and the
  call returns no error, then the users are the users of before followed by one new row,
  which holds that hash and the caller's \<open>encryptedUserSecret\<close>; the events and the
  accounts are the ones of before.
\<close>

theorem AssociateUserSecret_new_user:
  assumes "db_find_account (find_account_fault E) (account_rows db) accountID = Inr account"
    and "db_first_user (first_user_fault E) (user_rows db) (HashUserID H account userID)
           = Inl ErrRecordNotFound"
    and "AssociateUserSecret H E db accountID userID encryptedUserSecret = (None, db', st)"
  shows "user_rows db' = user_rows db @ [\<lparr>HashedUserID = HashUserID H account userID,
                                          EncryptedUserSecret = encryptedUserSecret\<rparr>]
       \<and> event_rows db' = event_rows db \<and> account_rows db' = account_rows db"
  using assms(3,1,2)
  by (auto simp: AssociateUserSecret_def commit_and_create_def db_create_user_def Let_def
           split: option.splits sum.splits if_splits)

theorem AssociateUserSecret_new_user_witness:
  "db_find_account (find_account_fault calm) (account_rows store1) ''acme'' = Inr acme
   \<and> db_first_user (first_user_fault calm) (user_rows store1) (HashUserID sample_hash acme ''bob'')
       = Inl ErrRecordNotFound
   \<and> (\<exists>db'. AssociateUserSecret sample_hash calm store1 ''acme'' ''bob'' ''S9''
               = (None, db', TxnCommitted)
          \<and> user_rows db' = [\<lparr>HashedUserID = ''salt-alice'', EncryptedUserSecret = ''S1''\<rparr>,
                              \<lparr>HashedUserID = ''salt-bob'', EncryptedUserSecret = ''S9''\<rparr>]
          \<and> event_rows db' = [E1, E2])"
proof -
  let ?db' = "store1\<lparr>user_rows := [\<lparr>HashedUserID = ''salt-alice'', EncryptedUserSecret = ''S1''\<rparr>,
                                     \<lparr>HashedUserID = ''salt-bob'', EncryptedUserSecret = ''S9''\<rparr>]\<rparr>"
  have acc: "db_find_account (find_account_fault calm) (account_rows store1) ''acme'' = Inr acme"
    by (simp add: db_defs sample_defs)
  have usr: "db_first_user (first_user_fault calm) (user_rows store1)
               (HashUserID sample_hash acme ''bob'') = Inl ErrRecordNotFound"
    by (simp add: db_defs HashUserID_def sample_defs)
  have run: "AssociateUserSecret sample_hash calm store1 ''acme'' ''bob'' ''S9''
               = (None, ?db', TxnCommitted)"
    by (simp add: assoc_defs db_defs sample_defs)
  have "user_rows ?db' = user_rows store1 @ [\<lparr>HashedUserID = HashUserID sample_hash acme ''bob'',
                                               EncryptedUserSecret = ''S9''\<rparr>]
          \<and> event_rows ?db' = event_rows store1 \<and> account_rows ?db' = account_rows store1"
    by (rule AssociateUserSecret_new_user[OF acc usr run])
  then have "user_rows ?db' = [\<lparr>HashedUserID = ''salt-alice'', EncryptedUserSecret = ''S1''\<rparr>,
                               \<lparr>HashedUserID = ''salt-bob'', EncryptedUserSecret = ''S9''\<rparr>]
          \<and> event_rows ?db' = [E1, E2]"
    by (simp add: HashUserID_def sample_hash_def acme_def store1_def)
  with acc usr run show ?thesis
    by blast
qed

section \<open>AssociateUserSecret: what a rotation does to the events\<close>

text \<open>
  Claim C5. The events table has its primary key (no two rows with one \<open>EventID\<close>).
  When the call finds the account and a user of the hash, and the transaction is
  committed, the events after the call are: the rows that were not in \<^verbatim>\<open>affected\<close>,
  as they were and in their order, followed by one row for each affected event, which
  is the deleted row with \<open>EventID\<close> set to the identifier \<^verbatim>\<open>newEventID\<close> gave in its
  turn and \<open>EventHashedUserID\<close> set to the parked hash. The payload, the account and
  every other field of a migrated row are the deleted row's.
\<close>

theorem AssociateUserSecret_migrated_rows:
  assumes pk: "distinct (map EventID (event_rows db))"
    and acc: "db_find_account (find_account_fault E) (account_rows db) accountID = Inr account"
    and usr: "db_first_user (first_user_fault E) (user_rows db) (HashUserID H account userID) = Inr user"
    and uuid: "uuid_NewV4 E = Inr parkedID"
    and run: "AssociateUserSecret H E db accountID userID encryptedUserSecret = (err, db', TxnCommitted)"
  shows "\<exists>ids. length ids = length (affected_events E db (HashUserID H account userID))
            \<and> (\<forall>k<length (affected_events E db (HashUserID H account userID)).
                   newEventID E k = Inr (ids ! k))
            \<and> event_rows db' =
                 filter (\<lambda>e. e \<notin> set (affected_events E db (HashUserID H account userID))) (event_rows db)
                 @ map2 (\<lambda>ev newID. ev\<lparr>EventID := newID,
                                        EventHashedUserID := Some (HashUserID H account parkedID)\<rparr>)
                     (affected_events E db (HashUserID H account userID)) ids"
proof -
  from run acc usr obtain txn where
    m: "migrate_existing H E db account user (HashUserID H account userID) = Inr txn"
    and c: "commit_and_create E db txn (HashUserID H account userID) encryptedUserSecret
              = (err, db', TxnCommitted)"
    by (auto simp: AssociateUserSecret_def Let_def split: sum.splits)
  from c have "event_rows db' = event_rows txn"
    by (auto simp: commit_and_create_def split: option.splits sum.splits)
  with migrate_existing_events[OF m pk uuid] show ?thesis
    by simp
qed

theorem AssociateUserSecret_migrated_rows_witness:
  "distinct (map EventID (event_rows store1))
   \<and> db_find_account (find_account_fault calm) (account_rows store1) ''acme'' = Inr acme
   \<and> db_first_user (first_user_fault calm) (user_rows store1) (HashUserID sample_hash acme ''alice'')
       = Inr \<lparr>HashedUserID = ''salt-alice'', EncryptedUserSecret = ''S1''\<rparr>
   \<and> uuid_NewV4 calm = Inr ''uuid-1''
   \<and> (\<exists>db'. AssociateUserSecret sample_hash calm store1 ''acme'' ''alice'' ''S2''
               = (None, db', TxnCommitted)
          \<and> event_rows db' = [E2, E1\<lparr>EventID := ''N'', EventHashedUserID := Some ''salt-uuid-1''\<rparr>])"
proof -
  let ?db' = "\<lparr>account_rows = [acme],
       user_rows = [\<lparr>HashedUserID = ''salt-uuid-1'', EncryptedUserSecret = ''S1''\<rparr>,
                    \<lparr>HashedUserID = ''salt-alice'', EncryptedUserSecret = ''S2''\<rparr>],
       event_rows = [E2, E1\<lparr>EventID := ''N'', EventHashedUserID := Some ''salt-uuid-1''\<rparr>],
       keyless_account_rows = []\<rparr>"
  have pk: "distinct (map EventID (event_rows store1))"
    by (simp add: sample_defs)
  have acc: "db_find_account (find_account_fault calm) (account_rows store1) ''acme'' = Inr acme"
    by (simp add: db_defs sample_defs)
  have usr: "db_first_user (first_user_fault calm) (user_rows store1)
               (HashUserID sample_hash acme ''alice'')
             = Inr \<lparr>HashedUserID = ''salt-alice'', EncryptedUserSecret = ''S1''\<rparr>"
    by (simp add: db_defs HashUserID_def sample_defs)
  have uuid: "uuid_NewV4 calm = Inr ''uuid-1''"
    by (simp add: calm_def)
  have run: "AssociateUserSecret sample_hash calm store1 ''acme'' ''alice'' ''S2''
               = (None, ?db', TxnCommitted)"
    by (simp add: assoc_defs db_defs sample_defs)
  have aff: "affected_events calm store1 (HashUserID sample_hash acme ''alice'') = [E1]"
    by (simp add: affected_events_def db_defs HashUserID_def sample_defs)
  from AssociateUserSecret_migrated_rows[OF pk acc usr uuid run] obtain ids where
    len: "length ids = 1"
    and new: "newEventID calm 0 = Inr (ids ! 0)"
    and rows: "event_rows ?db' = filter (\<lambda>e. e \<notin> set [E1]) (event_rows store1)
         @ map2 (\<lambda>ev newID. ev\<lparr>EventID := newID,
                                EventHashedUserID := Some (HashUserID sample_hash acme ''uuid-1'')\<rparr>)
             [E1] ids"
    unfolding aff by auto
  from len obtain x where ids: "ids = [x]"
    by (cases ids) auto
  from new have "x = ''N''"
    by (simp add: ids calm_def)
  with rows have "event_rows ?db' = [E2, E1\<lparr>EventID := ''N'', EventHashedUserID := Some ''salt-uuid-1''\<rparr>]"
    by (simp add: ids HashUserID_def sample_defs)
  with pk acc usr uuid run show ?thesis
    by blast
qed

section \<open>GetAccount: what a result holds\<close>

lemmas get_defs = GetAccount_def preload_events_def preload_user_def event_result_def
  db_find_account_def Let_def

text \<open>
  When the loaded events are all of one account, the loop fills one entry of
  \<^verbatim>\<open>eventResults\<close>: the results of the events, in the order in which they were loaded.
\<close>

lemma collect_events_one_account:
  assumes "\<forall>e\<in>set evs. EventAccountID e = accountID"
  shows "fst (collect_events us evs ([(accountID, rs)], secrets))
           = [(accountID, rs @ map event_result evs)]"
  using assms by (induction evs arbitrary: rs secrets) auto

lemma collect_events_from_empty:
  assumes "\<forall>e\<in>set evs. EventAccountID e = accountID"
  shows "fst (collect_events us evs ([], secrets))
           = (if evs = [] then [] else [(accountID, map event_result evs)])"
proof (cases evs)
  case Nil
  then show ?thesis by simp
next
  case (Cons e rest)
  with assms have "\<forall>e\<in>set rest. EventAccountID e = accountID" and "EventAccountID e = accountID"
    by simp_all
  then show ?thesis
    using collect_events_one_account[of rest accountID us "[event_result e]"]
    by (simp add: Cons)
qed

lemma preload_events_since:
  "preload_events row_order rows accountID True eventsSince
     = row_order (filter (\<lambda>e. EventAccountID e = accountID
                              \<and> (eventsSince = '''' \<or> eventsSince < EventID e)) rows)"
  by (simp add: preload_events_def)

text \<open>The fields of a returned event are the fields of the stored event.\<close>

lemma event_result_fields:
  "map (\<lambda>r. (ResEventID r, ResAccountID r, ResUserID r, ResPayload r)) (map event_result evs)
     = map (\<lambda>e. (EventID e, EventAccountID e, EventHashedUserID e, Payload e)) evs"
  by (simp add: event_result_def)

text \<open>
  Claim C7. The storage returns the selected rows in some order (\<open>row_order\<close>
  rearranges a list and neither adds nor drops a row). When the events are asked for
  and the call returns a result, the returned events all stand under the one key
  \<open>accountID\<close> (the field is \<^verbatim>\<open>nil\<close> when there is none), and their identifier,
  account, user and payload are, one for one, those of the stored events of the account
  whose \<open>EventID\<close> is above the cursor (strictly), in the order of the storage; with the
  empty cursor, those of all the events of the account. As a collection, the returned
  events are exactly these stored events: none is missing, none is added, none is
  returned twice.
\<close>

theorem GetAccount_events_since:
  assumes order: "\<And>xs. mset (row_order xs) = mset xs"
    and run: "GetAccount WrapPublicKey fault row_order db accountID True eventsSince = Inr result"
  shows "\<exists>returned.
           ResultEvents result = (if returned = [] then None else Some [(accountID, returned)])
         \<and> map (\<lambda>r. (ResEventID r, ResAccountID r, ResUserID r, ResPayload r)) returned
             = map (\<lambda>e. (EventID e, EventAccountID e, EventHashedUserID e, Payload e))
                 (row_order (filter (\<lambda>e. EventAccountID e = accountID
                                          \<and> (eventsSince = '''' \<or> eventsSince < EventID e))
                               (event_rows db)))
         \<and> mset (map (\<lambda>r. (ResEventID r, ResAccountID r, ResUserID r, ResPayload r)) returned)
             = mset (map (\<lambda>e. (EventID e, EventAccountID e, EventHashedUserID e, Payload e))
                       (filter (\<lambda>e. EventAccountID e = accountID
                                    \<and> (eventsSince = '''' \<or> eventsSince < EventID e))
                          (event_rows db)))"
proof -
  let ?sel = "filter (\<lambda>e. EventAccountID e = accountID
                          \<and> (eventsSince = '''' \<or> eventsSince < EventID e)) (event_rows db)"
  let ?evs = "row_order ?sel"
  let ?fields = "\<lambda>e. (EventID e, EventAccountID e, EventHashedUserID e, Payload e)"
  from run obtain account key where
    acc: "db_find_account fault (account_rows db) accountID = Inr account"
    and key: "WrapPublicKey account = Inr key"
    by (auto simp: GetAccount_def split: sum.splits if_splits)
  from acc have aid: "AccountID account = accountID"
    by (simp add: db_find_account_Inr)
  have pre: "preload_events row_order (event_rows db) accountID True eventsSince = ?evs"
    by (rule preload_events_since)
  have "set ?evs = set ?sel"
    using order[of ?sel] by (rule mset_eq_setD)
  then have "\<forall>e\<in>set ?evs. EventAccountID e = accountID"
    by simp
  then have maps: "fst (collect_events (user_rows db) ?evs ([], []))
                = (if ?evs = [] then [] else [(accountID, map event_result ?evs)])"
    by (rule collect_events_from_empty)
  from run acc key have "ResultEvents result =
      (if fst (collect_events (user_rows db) ?evs ([], [])) \<noteq> []
       then Some (fst (collect_events (user_rows db) ?evs ([], []))) else None)"
    by (auto simp: GetAccount_def Let_def aid split_def pre)
  then have "ResultEvents result =
      (if ?evs = [] then None else Some [(accountID, map event_result ?evs)])"
    by (simp only: maps) simp
  then have shape: "ResultEvents result =
      (if map event_result ?evs = [] then None else Some [(accountID, map event_result ?evs)])"
    by simp
  have same: "map (\<lambda>r. (ResEventID r, ResAccountID r, ResUserID r, ResPayload r))
                (map event_result ?evs) = map ?fields ?evs"
    by (rule event_result_fields)
  have "mset (map ?fields ?evs) = image_mset ?fields (mset ?evs)"
    by simp
  also have "\<dots> = image_mset ?fields (mset ?sel)"
    by (simp only: order)
  also have "\<dots> = mset (map ?fields ?sel)"
    by simp
  finally have coll: "mset (map (\<lambda>r. (ResEventID r, ResAccountID r, ResUserID r, ResPayload r))
                        (map event_result ?evs)) = mset (map ?fields ?sel)"
    by (simp only: same)
  from shape same coll show ?thesis
    by blast
qed

theorem GetAccount_events_since_witness:
  "(\<forall>xs::Event list. mset (rev xs) = mset xs)
   \<and> (\<exists>result. GetAccount sample_wrap None rev store1 ''acme'' True ''E1'' = Inr result
         \<and> ResultEvents result
             = Some [(''acme'', [\<lparr>ResUserID = None, ResEventID = ''E2'',
                                  ResPayload = ''p2'', ResAccountID = ''acme''\<rparr>])])
   \<and> (\<exists>result. GetAccount sample_wrap None rev store1 ''acme'' True ''E0'' = Inr result
         \<and> ResultEvents result
             = Some [(''acme'', [\<lparr>ResUserID = None, ResEventID = ''E2'',
                                  ResPayload = ''p2'', ResAccountID = ''acme''\<rparr>,
                                 \<lparr>ResUserID = Some ''salt-alice'', ResEventID = ''E1'',
                                  ResPayload = ''p1'', ResAccountID = ''acme''\<rparr>])])"
proof -
  have order: "\<And>xs::Event list. mset (rev xs) = mset xs"
    by simp
  obtain r1 where r1: "GetAccount sample_wrap None rev store1 ''acme'' True ''E1'' = Inr r1"
    by (simp add: get_defs sample_wrap_def sample_defs split_def)
  obtain r2 where r2: "GetAccount sample_wrap None rev store1 ''acme'' True ''E0'' = Inr r2"
    by (simp add: get_defs sample_wrap_def sample_defs split_def)
  have sel1: "rev (filter (\<lambda>e. EventAccountID e = ''acme'' \<and> (''E1'' = '''' \<or> ''E1'' < EventID e))
                     (event_rows store1)) = [E2]"
    by (simp add: sample_defs)
  have sel2: "rev (filter (\<lambda>e. EventAccountID e = ''acme'' \<and> (''E0'' = '''' \<or> ''E0'' < EventID e))
                     (event_rows store1)) = [E2, E1]"
    by (simp add: sample_defs)
  from GetAccount_events_since[OF order r1] obtain ret1 where
    s1: "ResultEvents r1 = (if ret1 = [] then None else Some [(''acme'', ret1)])"
    and f1: "map (\<lambda>r. (ResEventID r, ResAccountID r, ResUserID r, ResPayload r)) ret1
             = map (\<lambda>e. (EventID e, EventAccountID e, EventHashedUserID e, Payload e)) [E2]"
    unfolding sel1 by blast
  from f1 have "ret1 = [\<lparr>ResUserID = None, ResEventID = ''E2'',
                          ResPayload = ''p2'', ResAccountID = ''acme''\<rparr>]"
    by (auto simp: map_eq_Cons_conv E2_def)
  with s1 have e1: "ResultEvents r1 = Some [(''acme'', [\<lparr>ResUserID = None, ResEventID = ''E2'',
                          ResPayload = ''p2'', ResAccountID = ''acme''\<rparr>])]"
    by simp
  from GetAccount_events_since[OF order r2] obtain ret2 where
    s2: "ResultEvents r2 = (if ret2 = [] then None else Some [(''acme'', ret2)])"
    and f2: "map (\<lambda>r. (ResEventID r, ResAccountID r, ResUserID r, ResPayload r)) ret2
             = map (\<lambda>e. (EventID e, EventAccountID e, EventHashedUserID e, Payload e)) [E2, E1]"
    unfolding sel2 by blast
  from f2 have "ret2 = [\<lparr>ResUserID = None, ResEventID = ''E2'',
                          ResPayload = ''p2'', ResAccountID = ''acme''\<rparr>,
                        \<lparr>ResUserID = Some ''salt-alice'', ResEventID = ''E1'',
                          ResPayload = ''p1'', ResAccountID = ''acme''\<rparr>]"
    by (auto simp: map_eq_Cons_conv E1_def E2_def)
  with s2 have e2: "ResultEvents r2 = Some [(''acme'', [\<lparr>ResUserID = None, ResEventID = ''E2'',
                          ResPayload = ''p2'', ResAccountID = ''acme''\<rparr>,
                        \<lparr>ResUserID = Some ''salt-alice'', ResEventID = ''E1'',
                          ResPayload = ''p1'', ResAccountID = ''acme''\<rparr>])]"
    by simp
  from order r1 e1 r2 e2 show ?thesis
    by blast
qed

text \<open>
  Claim C10. A result carries one of the two keys. When the events are asked for, it
  holds the account's \<open>EncryptedSecretKey\<close> and no public key; when they are not, it
  holds the wrapped public key and the empty string as \<open>EncryptedSecretKey\<close>.
\<close>

theorem GetAccount_key_fields:
  assumes "GetAccount WrapPublicKey fault row_order db accountID events eventsSince = Inr result"
  shows "\<exists>account key.
           db_find_account fault (account_rows db) accountID = Inr account
         \<and> WrapPublicKey account = Inr key
         \<and> (if events
            then ResultEncryptedSecretKey result = EncryptedSecretKey account
                 \<and> ResultPublicKey result = None
            else ResultPublicKey result = Some key
                 \<and> ResultEncryptedSecretKey result = '''')"
  using assms
  by (auto simp: GetAccount_def Let_def split_def split: sum.splits if_splits)

theorem GetAccount_key_fields_witness:
  "(\<exists>result. GetAccount sample_wrap None rev store1 ''acme'' True '''' = Inr result
       \<and> ResultEncryptedSecretKey result = ''ESK'' \<and> ResultPublicKey result = None)
   \<and> (\<exists>result. GetAccount sample_wrap None rev store1 ''acme'' False '''' = Inr result
       \<and> ResultPublicKey result = Some ''jwk:PK'' \<and> ResultEncryptedSecretKey result = '''')"
proof -
  have acc: "db_find_account None (account_rows store1) ''acme'' = Inr acme"
    by (simp add: db_find_account_def sample_defs)
  obtain r1 where r1: "GetAccount sample_wrap None rev store1 ''acme'' True '''' = Inr r1"
    by (simp add: get_defs sample_wrap_def sample_defs split_def)
  obtain r2 where r2: "GetAccount sample_wrap None rev store1 ''acme'' False '''' = Inr r2"
    by (simp add: get_defs sample_wrap_def sample_defs split_def)
  from GetAccount_key_fields[OF r1] acc
  have "ResultEncryptedSecretKey r1 = ''ESK'' \<and> ResultPublicKey r1 = None"
    by (auto simp: acme_def)
  moreover from GetAccount_key_fields[OF r2] acc
  have "ResultPublicKey r2 = Some ''jwk:PK'' \<and> ResultEncryptedSecretKey r2 = ''''"
    by (auto simp: acme_def sample_wrap_def)
  ultimately show ?thesis
    using r1 r2 by blast
qed

text \<open>
  An account that has no row: when the storage answers, \<^verbatim>\<open>GetAccount\<close> returns the
  typed error.
\<close>

lemma GetAccount_unknown_account:
  assumes "find (\<lambda>a. AccountID a = accountID) (account_rows db) = None"
  shows "\<exists>m. GetAccount WrapPublicKey None row_order db accountID events eventsSince
               = Inl (ErrUnknownAccount m)"
  using assms by (simp add: GetAccount_def db_find_account_def)

text \<open>Looking an account up by its id does not read the salts.\<close>

lemma find_account_resalted:
  "find (\<lambda>a. AccountID a = accountID) (map (\<lambda>a. a\<lparr>UserSalt := salt a\<rparr>) rows)
     = map_option (\<lambda>a. a\<lparr>UserSalt := salt a\<rparr>) (find (\<lambda>a. AccountID a = accountID) rows)"
  by (induction rows) auto

text \<open>
  Claim C9. The result does not depend on the salts: with any other salt in every
  account, and a \<^verbatim>\<open>WrapPublicKey\<close> that does not read the salt, \<^verbatim>\<open>GetAccount\<close>
  returns the same value, result or error. (The type of the result has no field for a
  salt; the hashes of the users, which were computed from it, are stored in the events.)
\<close>

theorem GetAccount_independent_of_UserSalt:
  assumes "\<And>a s. WrapPublicKey (a\<lparr>UserSalt := s\<rparr>) = WrapPublicKey a"
  shows "GetAccount WrapPublicKey fault row_order
           (db\<lparr>account_rows := map (\<lambda>a. a\<lparr>UserSalt := salt a\<rparr>) (account_rows db)\<rparr>)
           accountID events eventsSince
         = GetAccount WrapPublicKey fault row_order db accountID events eventsSince"
  by (simp add: GetAccount_def db_find_account_def find_account_resalted assms Let_def split_def
           split: option.splits sum.splits)

theorem GetAccount_independent_of_UserSalt_witness:
  "GetAccount sample_wrap None rev (store1\<lparr>account_rows := [acme\<lparr>UserSalt := ''other''\<rparr>]\<rparr>)
      ''acme'' True ''''
   = GetAccount sample_wrap None rev store1 ''acme'' True ''''"
proof -
  have wrap: "\<And>a s. sample_wrap (a\<lparr>UserSalt := s\<rparr>) = sample_wrap a"
    by (simp add: sample_wrap_def)
  have rows: "store1\<lparr>account_rows := [acme\<lparr>UserSalt := ''other''\<rparr>]\<rparr>
        = store1\<lparr>account_rows := map (\<lambda>a. a\<lparr>UserSalt := ''other''\<rparr>) (account_rows store1)\<rparr>"
    by (simp add: store1_def)
  show ?thesis
    unfolding rows
    by (rule GetAccount_independent_of_UserSalt[OF wrap])
qed

section \<open>CreateAccount: errors write nothing\<close>

text \<open>
  Claim C6. Whenever \<^verbatim>\<open>CreateAccount\<close> returns an error, the store is the store of
  before: no account row was written. A failure of the random source, of the key
  generation or of the encryption makes the call return an error (and so write
  nothing). When the call returns no error, the salt, the key pair and the encrypted
  private key were all computed, and the one write stored the row made of them; users
  and events are untouched.
\<close>

theorem CreateAccount_error_writes_nothing:
  "(\<forall>e db'. CreateAccount K db accountID name = (Some e, db') \<longrightarrow> db' = db)
   \<and> (isl (GenerateRandomString K) \<or> isl (GenerateRSAKeypair K)
        \<or> (\<exists>publicKey privateKey. GenerateRSAKeypair K = Inr (publicKey, privateKey)
              \<and> isl (Encrypt K privateKey))
       \<longrightarrow> (\<exists>e. CreateAccount K db accountID name = (Some e, db)))
   \<and> (\<forall>db'. CreateAccount K db accountID name = (None, db') \<longrightarrow>
         (\<exists>userSalt publicKey privateKey encryptedPrivateKey.
             GenerateRandomString K = Inr userSalt
           \<and> GenerateRSAKeypair K = Inr (publicKey, privateKey)
           \<and> Encrypt K privateKey = Inr encryptedPrivateKey
           \<and> db_save_account (save_fault K) db
                 \<lparr>AccountID = accountID, Name = name, PublicKey = publicKey,
                  EncryptedSecretKey = encryptedPrivateKey, UserSalt = userSalt\<rparr>
               = Inr db'
           \<and> user_rows db' = user_rows db \<and> event_rows db' = event_rows db))"
proof (intro conjI allI impI)
  fix e db'
  assume "CreateAccount K db accountID name = (Some e, db')"
  then show "db' = db"
    by (auto simp: CreateAccount_def split: sum.splits prod.splits)
next
  assume "isl (GenerateRandomString K) \<or> isl (GenerateRSAKeypair K)
        \<or> (\<exists>publicKey privateKey. GenerateRSAKeypair K = Inr (publicKey, privateKey)
              \<and> isl (Encrypt K privateKey))"
  then show "\<exists>e. CreateAccount K db accountID name = (Some e, db)"
    by (auto simp: CreateAccount_def isl_def split: sum.splits prod.splits)
next
  fix db'
  assume "CreateAccount K db accountID name = (None, db')"
  then show "\<exists>userSalt publicKey privateKey encryptedPrivateKey.
             GenerateRandomString K = Inr userSalt
           \<and> GenerateRSAKeypair K = Inr (publicKey, privateKey)
           \<and> Encrypt K privateKey = Inr encryptedPrivateKey
           \<and> db_save_account (save_fault K) db
                 \<lparr>AccountID = accountID, Name = name, PublicKey = publicKey,
                  EncryptedSecretKey = encryptedPrivateKey, UserSalt = userSalt\<rparr>
               = Inr db'
           \<and> user_rows db' = user_rows db \<and> event_rows db' = event_rows db"
    by (auto simp: CreateAccount_def db_save_account_def
             split: sum.splits prod.splits option.splits if_splits)
qed

theorem CreateAccount_error_writes_nothing_witness:
  "isl (GenerateRSAKeypair (sample_keys\<lparr>GenerateRSAKeypair := Inl ''rsa: no entropy''\<rparr>))
   \<and> (\<exists>e. CreateAccount (sample_keys\<lparr>GenerateRSAKeypair := Inl ''rsa: no entropy''\<rparr>)
             store1 ''beta'' ''Beta'' = (Some e, store1))"
proof -
  let ?K = "sample_keys\<lparr>GenerateRSAKeypair := Inl ''rsa: no entropy''\<rparr>"
  have fails: "isl (GenerateRSAKeypair ?K)"
    by simp
  then have "\<exists>e. CreateAccount ?K store1 ''beta'' ''Beta'' = (Some e, store1)"
    using CreateAccount_error_writes_nothing[of ?K store1 "''beta''" "''Beta''"] by blast
  with fails show ?thesis
    by blast
qed

section \<open>AssociateUserSecret: the rotation\<close>

text \<open>
  What a rotation does when every storage call answers, the lookup of the affected
  events among them: the found user's row now holds the parked hash, which differs
  from the hash asked for; a new row holds that hash and the caller's secret; and every
  event of the hash was moved to the parked hash under the identifier
  \<^verbatim>\<open>newEventID\<close> gave for it.
\<close>

lemma AssociateUserSecret_rotation:
  assumes pk: "distinct (map EventID (event_rows db))"
    and acc: "db_find_account (find_account_fault E) (account_rows db) accountID = Inr account"
    and usr: "db_first_user (first_user_fault E) (user_rows db) (HashUserID H account userID) = Inr user"
    and uuid: "uuid_NewV4 E = Inr parkedID"
    and look: "find_affected_fault E = None"
    and run: "AssociateUserSecret H E db accountID userID encryptedUserSecret = (None, db', st)"
  shows "HashUserID H account parkedID \<noteq> HashUserID H account userID
       \<and> user_rows db' =
           filter (\<lambda>u. HashedUserID u \<noteq> HashUserID H account userID) (user_rows db)
           @ [user\<lparr>HashedUserID := HashUserID H account parkedID\<rparr>,
              \<lparr>HashedUserID = HashUserID H account userID,
               EncryptedUserSecret = encryptedUserSecret\<rparr>]
       \<and> (\<exists>ids. length ids = length (filter (\<lambda>e. EventHashedUserID e = Some (HashUserID H account userID))
                                         (event_rows db))
            \<and> (\<forall>k<length ids. newEventID E k = Inr (ids ! k))
            \<and> event_rows db' =
                 filter (\<lambda>e. EventHashedUserID e \<noteq> Some (HashUserID H account userID)) (event_rows db)
                 @ map2 (\<lambda>ev newID. ev\<lparr>EventID := newID,
                                        EventHashedUserID := Some (HashUserID H account parkedID)\<rparr>)
                     (filter (\<lambda>e. EventHashedUserID e = Some (HashUserID H account userID))
                        (event_rows db)) ids)"
proof -
  let ?h = "HashUserID H account userID"
  let ?p = "HashUserID H account parkedID"
  from run acc usr obtain txn where
    m: "migrate_existing H E db account user ?h = Inr txn"
    and c: "commit_and_create E db txn ?h encryptedUserSecret = (None, db', st)"
    by (auto simp: AssociateUserSecret_def Let_def split: sum.splits)
  from usr have found: "user \<in> set (user_rows db)" and hash: "HashedUserID user = ?h"
    by (simp_all add: db_first_user_Inr)
  from m uuid obtain us1 us2 where
    cre: "db_create_user (create_parked_fault E) (user_rows db) (user\<lparr>HashedUserID := ?p\<rparr>) = Inr us1"
    and del: "db_delete_users (delete_user_fault E) us1 ?h = Inr us2"
    and tus: "user_rows txn = us2"
    by (auto simp: migrate_existing_def Let_def split: sum.splits)
  from cre have fresh: "?p \<notin> HashedUserID ` set (user_rows db)"
    and us1: "us1 = user_rows db @ [user\<lparr>HashedUserID := ?p\<rparr>]"
    by (auto simp: db_create_user_def split: option.splits if_splits)
  from found hash have "?h \<in> HashedUserID ` set (user_rows db)"
    by (metis imageI)
  with fresh have ne: "?p \<noteq> ?h"
    by metis
  from del have us2: "us2 = filter (\<lambda>u. HashedUserID u \<noteq> ?h) (user_rows db) @ [user\<lparr>HashedUserID := ?p\<rparr>]"
    using ne by (auto simp: db_delete_users_def us1 split: option.splits)
  from c have users: "user_rows db' = us2 @ [\<lparr>HashedUserID = ?h, EncryptedUserSecret = encryptedUserSecret\<rparr>]"
    and events: "event_rows db' = event_rows txn"
    by (auto simp: commit_and_create_def db_create_user_def tus split: option.splits sum.splits if_splits)
  have aff: "affected_events E db ?h = filter (\<lambda>e. EventHashedUserID e = Some ?h) (event_rows db)"
    by (simp add: affected_events_def db_find_events_def look)
  have kept: "filter (\<lambda>e. e \<notin> set (affected_events E db ?h)) (event_rows db)
                = filter (\<lambda>e. EventHashedUserID e \<noteq> Some ?h) (event_rows db)"
    unfolding aff by (rule filter_cong) auto
  from migrate_existing_events[OF m pk uuid] obtain ids where
    "length ids = length (affected_events E db ?h)"
    and "\<forall>k<length (affected_events E db ?h). newEventID E k = Inr (ids ! k)"
    and "event_rows txn = filter (\<lambda>e. e \<notin> set (affected_events E db ?h)) (event_rows db)
           @ map2 (\<lambda>ev newID. ev\<lparr>EventID := newID, EventHashedUserID := Some ?p\<rparr>)
               (affected_events E db ?h) ids"
    by blast
  then have "length ids = length (filter (\<lambda>e. EventHashedUserID e = Some ?h) (event_rows db))
      \<and> (\<forall>k<length ids. newEventID E k = Inr (ids ! k))
      \<and> event_rows db' = filter (\<lambda>e. EventHashedUserID e \<noteq> Some ?h) (event_rows db)
           @ map2 (\<lambda>ev newID. ev\<lparr>EventID := newID, EventHashedUserID := Some ?p\<rparr>)
               (filter (\<lambda>e. EventHashedUserID e = Some ?h) (event_rows db)) ids"
    unfolding kept events unfolding aff by simp
  then have "\<exists>ids. length ids = length (filter (\<lambda>e. EventHashedUserID e = Some ?h) (event_rows db))
      \<and> (\<forall>k<length ids. newEventID E k = Inr (ids ! k))
      \<and> event_rows db' = filter (\<lambda>e. EventHashedUserID e \<noteq> Some ?h) (event_rows db)
           @ map2 (\<lambda>ev newID. ev\<lparr>EventID := newID, EventHashedUserID := Some ?p\<rparr>)
               (filter (\<lambda>e. EventHashedUserID e = Some ?h) (event_rows db)) ids"
    by blast
  with ne users us2 show ?thesis
    by simp
qed

text \<open>
  Claim C1, at an input where it fails. The account \<open>acme\<close> has the user of
  \<open>alice\<close> with the secret \<open>S1\<close> and her event \<open>E1\<close>. During the call for \<open>alice\<close>
  and the secret \<open>S2\<close> every storage call answers but the lookup of the affected events
  (line 108), whose error the source does not read. The call returns no error; the old
  user row is parked and the new row is there, and \<open>E1\<close> is still bound to the hash of
  \<open>alice\<close>, under its old identifier.
\<close>

theorem AssociateUserSecret_unread_lookup_error:
  "AssociateUserSecret sample_hash (calm\<lparr>find_affected_fault := Some ''connection reset''\<rparr>)
      store1 ''acme'' ''alice'' ''S2''
   = (None,
      \<lparr>account_rows = [acme],
       user_rows = [\<lparr>HashedUserID = ''salt-uuid-1'', EncryptedUserSecret = ''S1''\<rparr>,
                    \<lparr>HashedUserID = ''salt-alice'', EncryptedUserSecret = ''S2''\<rparr>],
       event_rows = [\<lparr>EventID = ''E1'', EventAccountID = ''acme'',
                      EventHashedUserID = Some ''salt-alice'', Payload = ''p1''\<rparr>, E2],
       keyless_account_rows = []\<rparr>,
      TxnCommitted)"
  by (simp add: assoc_defs db_defs sample_defs)

section \<open>AssociateUserSecret: errors\<close>

text \<open>
  An error that is returned before the commit leaves the store as it was, and every
  error of the branch of an existing user is returned after \<^verbatim>\<open>txn.Rollback()\<close>.
\<close>

lemma AssociateUserSecret_error_keeps_store:
  assumes "AssociateUserSecret H E db accountID userID encryptedUserSecret = (Some e, db', st)"
    and "st \<noteq> TxnCommitted"
  shows "db' = db"
  using assms
  by (auto simp: AssociateUserSecret_def commit_and_create_def Let_def
           split: sum.splits option.splits if_splits)

lemma AssociateUserSecret_migration_error_rolls_back:
  assumes "db_find_account (find_account_fault E) (account_rows db) accountID = Inr account"
    and "db_first_user (first_user_fault E) (user_rows db) (HashUserID H account userID) = Inr user"
    and "migrate_existing H E db account user (HashUserID H account userID) = Inl e"
  shows "AssociateUserSecret H E db accountID userID encryptedUserSecret = (Some e, db, TxnRolledBack)"
  using assms by (simp add: AssociateUserSecret_def Let_def)

text \<open>
  The transaction is left open in one case only: the account was found and the lookup
  of the user failed with an error that is not \<^verbatim>\<open>ErrRecordNotFound\<close>.
\<close>

lemma AssociateUserSecret_txn_open_iff:
  "snd (snd (AssociateUserSecret H E db accountID userID encryptedUserSecret)) = TxnOpen
   \<longleftrightarrow> (\<exists>account m.
          db_find_account (find_account_fault E) (account_rows db) accountID = Inr account
        \<and> db_first_user (first_user_fault E) (user_rows db) (HashUserID H account userID)
            = Inl (DBFailure m))"
proof -
  have ne: "\<And>err. err \<noteq> ErrRecordNotFound \<longleftrightarrow> (\<exists>m. err = DBFailure m)"
    by (case_tac err) simp_all
  show ?thesis
    by (auto simp: AssociateUserSecret_def commit_and_create_def Let_def ne
             split: sum.splits option.splits)
qed

text \<open>
  Claim C2, at an input where it fails. The lookup of the user (line 84) comes after
  \<^verbatim>\<open>r.db.Begin()\<close> (line 80). When it fails with an error other than
  \<^verbatim>\<open>ErrRecordNotFound\<close>, the function returns (line 86) with the transaction open:
  no \<^verbatim>\<open>Rollback\<close> was called on it.
\<close>

theorem AssociateUserSecret_user_lookup_error_leaves_txn_open:
  "AssociateUserSecret sample_hash (calm\<lparr>first_user_fault := Some ''connection reset''\<rparr>)
      store1 ''acme'' ''alice'' ''S2''
   = (Some (GenericError ''relational: error looking up user: connection reset''), store1, TxnOpen)"
  by (simp add: assoc_defs db_defs sample_defs)

text \<open>
  Claim C4, at an input where it fails. No account has the id \<open>nobody\<close> and the storage
  answers the lookup with \<^verbatim>\<open>ErrRecordNotFound\<close>. \<^verbatim>\<open>AssociateUserSecret\<close> returns the
  generic error of \<^verbatim>\<open>fmt.Errorf\<close> (line 75), not \<^verbatim>\<open>ErrUnknownAccount\<close>.
\<close>

theorem AssociateUserSecret_unknown_account_generic_error:
  "AssociateUserSecret sample_hash calm store1 ''nobody'' ''alice'' ''S2''
   = (Some (GenericError ''relational: error looking up account with id nobody: record not found''),
      store1, NoTxn)"
  by (simp add: assoc_defs db_defs sample_defs)

section \<open>The order of the identifiers\<close>

lemma crockford_sorted: "sorted_wrt (<) crockford"
  unfolding crockford_def by code_simp

lemma crockford_mono: "i < j \<Longrightarrow> j < 32 \<Longrightarrow> crockford ! i < crockford ! j"
  using sorted_wrt_nth_less[OF crockford_sorted, of i j] by (simp add: crockford_def)

lemma base32_Suc: "base32 (Suc k) n = crockford ! ((n div 32 ^ k) mod 32) # base32 k n"
proof -
  have "[0..<Suc k] = 0 # map Suc [0..<k]"
    by (simp add: upt_conv_Cons map_Suc_upt del: upt_Suc)
  then show ?thesis
    by (simp add: base32_def comp_def del: upt_Suc)
qed

lemma mod_mult_div: "(0::nat) < a \<Longrightarrow> (m mod (a * b)) div a = (m div a) mod b"
  by (simp add: mod_mult2_eq)

lemma digit_mod:
  assumes "j < k"
  shows "((n mod 32 ^ k) div 32 ^ j) mod 32 = (n div 32 ^ j) mod (32::nat)"
proof -
  from assms obtain d where k: "k = j + Suc d"
    by (metis less_imp_Suc_add add_Suc_right)
  have "(n mod (32 ^ j * 32 ^ Suc d)) div 32 ^ j = (n div 32 ^ j) mod 32 ^ Suc d"
    by (rule mod_mult_div) simp
  then have "(n mod 32 ^ k) div 32 ^ j = (n div 32 ^ j) mod 32 ^ Suc d"
    by (simp only: k power_add)
  then show ?thesis
    by (simp add: mod_mod_cancel)
qed

lemma base32_mod: "base32 k (n mod 32 ^ k) = base32 k n"
  by (simp add: base32_def digit_mod)

text \<open>On numbers of at most \<open>k\<close> digits, the order of the strings is the order of the numbers.\<close>

lemma base32_mono: "n1 < n2 \<Longrightarrow> n2 < 32 ^ k \<Longrightarrow> base32 k n1 < base32 k n2"
proof (induction k arbitrary: n1 n2)
  case 0
  then show ?case by simp
next
  case (Suc k)
  let ?h1 = "n1 div 32 ^ k" and ?h2 = "n2 div 32 ^ k"
  have h2: "?h2 < 32"
    using Suc.prems(2) by (simp add: less_mult_imp_div_less mult.commute)
  have le: "?h1 \<le> ?h2"
    using Suc.prems(1) by (simp add: div_le_mono)
  then have h1: "?h1 < 32"
    using h2 by simp
  show ?case
  proof (cases "?h1 < ?h2")
    case True
    then show ?thesis
      using crockford_mono[OF True h2] h1 h2 by (simp add: base32_Suc)
  next
    case False
    with le have eq: "?h1 = ?h2"
      by simp
    have "n1 mod 32 ^ k < n2 mod 32 ^ k"
      using Suc.prems(1) eq by (metis div_mult_mod_eq add_less_cancel_left)
    moreover have "n2 mod 32 ^ k < 32 ^ k"
      by simp
    ultimately have "base32 k (n1 mod 32 ^ k) < base32 k (n2 mod 32 ^ k)"
      by (rule Suc.IH)
    then show ?thesis
      using eq by (simp add: base32_Suc base32_mod)
  qed
qed

lemma base32_less_iff:
  assumes "n1 < 32 ^ k" and "n2 < 32 ^ k"
  shows "base32 k n1 < base32 k n2 \<longleftrightarrow> n1 < n2"
proof
  assume less: "base32 k n1 < base32 k n2"
  show "n1 < n2"
  proof (rule ccontr)
    assume "\<not> n1 < n2"
    then consider "n1 = n2" | "n2 < n1"
      by linarith
    then show False
    proof cases
      case 1
      with less show False by simp
    next
      case 2
      from base32_mono[OF 2 assms(1)] less show False
        by (simp add: less_not_sym)
    qed
  qed
next
  assume "n1 < n2"
  then show "base32 k n1 < base32 k n2"
    using assms(2) by (rule base32_mono)
qed

lemma ulid_number_bound:
  assumes "ms \<le> 281474976710655" and "e < 2 ^ 80"
  shows "ms * 2 ^ 80 + e < (32::nat) ^ 26"
proof -
  have "ms * 2 ^ 80 + e < (ms + 1) * 2 ^ 80"
    using assms(2) by simp
  also have "\<dots> \<le> 281474976710656 * 2 ^ 80"
    using assms(1) by (intro mult_right_mono) simp_all
  also have "\<dots> < (32::nat) ^ 26"
    by simp
  finally show ?thesis .
qed

lemma ulid_number_less_iff:
  assumes "e1 < (2::nat) ^ 80" and "e2 < 2 ^ 80"
  shows "ms1 * 2 ^ 80 + e1 < ms2 * 2 ^ 80 + e2 \<longleftrightarrow> ms1 < ms2 \<or> (ms1 = ms2 \<and> e1 < e2)"
proof -
  define B where "B = (2::nat) ^ 80"
  have e: "e1 < B" "e2 < B"
    using assms by (simp_all add: B_def)
  have "ms1 * B + e1 < ms2 * B + e2 \<longleftrightarrow> ms1 < ms2 \<or> (ms1 = ms2 \<and> e1 < e2)"
  proof (cases ms1 ms2 rule: linorder_cases)
    case less
    then have "(ms1 + 1) * B \<le> ms2 * B"
      by (intro mult_right_mono) simp_all
    with e less show ?thesis
      by (simp add: algebra_simps)
  next
    case equal
    then show ?thesis by simp
  next
    case greater
    then have "(ms2 + 1) * B \<le> ms1 * B"
      by (intro mult_right_mono) simp_all
    with e greater show ?thesis
      by (simp add: algebra_simps)
  qed
  then show ?thesis
    by (simp add: B_def)
qed

text \<open>
  Two identifiers compare as their milliseconds do, and within one millisecond as the
  entropy of the two calls does: a later millisecond gives a greater identifier, and
  inside a millisecond the order is the order of the numbers that the two generators,
  seeded with the two readings, happen to give.
\<close>

lemma NewEventID_less_iff:
  assumes "NewEventID rnd t1 = Inr a" and "NewEventID rnd t2 = Inr b"
  shows "a < b \<longleftrightarrow> Timestamp t1 < Timestamp t2
                   \<or> (Timestamp t1 = Timestamp t2 \<and> rnd t1 mod 2 ^ 80 < rnd t2 mod 2 ^ 80)"
proof -
  from assms have ms: "Timestamp t1 \<le> 281474976710655" "Timestamp t2 \<le> 281474976710655"
    and a: "a = base32 26 (Timestamp t1 * 2 ^ 80 + rnd t1 mod 2 ^ 80)"
    and b: "b = base32 26 (Timestamp t2 * 2 ^ 80 + rnd t2 mod 2 ^ 80)"
    by (auto simp: NewEventID_def ulid_New_def ulid_String_def split: if_splits)
  have e: "rnd t1 mod 2 ^ 80 < 2 ^ 80" "rnd t2 mod 2 ^ 80 < 2 ^ 80"
    by simp_all
  have "a < b \<longleftrightarrow> Timestamp t1 * 2 ^ 80 + rnd t1 mod 2 ^ 80 < Timestamp t2 * 2 ^ 80 + rnd t2 mod 2 ^ 80"
    unfolding a b
    by (rule base32_less_iff) (rule ulid_number_bound[OF ms(1) e(1)], rule ulid_number_bound[OF ms(2) e(2)])
  then show ?thesis
    by (simp only: ulid_number_less_iff[OF e])
qed

lemma NewEventID_later_millisecond:
  assumes "NewEventID rnd t1 = Inr a" and "NewEventID rnd t2 = Inr b"
    and "Timestamp t1 < Timestamp t2"
  shows "a < b"
  using NewEventID_less_iff[OF assms(1,2)] assms(3) by simp

lemma NewEventID_same_millisecond:
  assumes "NewEventID rnd t1 = Inr a" and "NewEventID rnd t2 = Inr b"
    and "Timestamp t1 = Timestamp t2"
  shows "a < b \<longleftrightarrow> rnd t1 mod 2 ^ 80 < rnd t2 mod 2 ^ 80"
  using NewEventID_less_iff[OF assms(1,2)] assms(3) by simp

text \<open>
  Claim C3, at an input where it fails. The identifier is a function of the clock
  reading alone: the entropy comes from a generator seeded with the reading, and the
  monotonic reader is new in every call. Two calls that read the same instant return
  the same identifier, whatever the generator \<open>rnd\<close> is.
\<close>

theorem NewEventIDs_same_instant_same_identifier:
  "NewEventIDs rnd [1572775200000000000, 1572775200000000000]
   = [Inr (ulid_String (1572775200000, rnd 1572775200000000000 mod 2 ^ 80)),
      Inr (ulid_String (1572775200000, rnd 1572775200000000000 mod 2 ^ 80))]"
  by (simp add: NewEventIDs_def NewEventID_def ulid_New_def Timestamp_def)

end
